theory Spec2Isabelle
  imports Main
begin

section \<open>Data model of session.ts\<close>

text \<open>
  The shapes of items, value sets and server errors are declared in actions.ts. The
  session only reads an item's \<open>id\<close>, \<open>type\<close>, \<open>items\<close> and \<open>value\<close>; the
  answer value, the server error record and the content of a value set stay type
  parameters (\<open>'v\<close>, \<open>'e\<close>, \<open>'w\<close>). An absent or undefined \<open>items\<close> field is \<open>None\<close>.
\<close>

record 'v SessionItem =
  item_id :: string
  item_type :: string
  item_items :: "string list option"
  item_value :: 'v

record 'w SessionValueSet =
  vs_id :: string
  vs_content :: 'w

text \<open>
  A JavaScript \<open>Set<string>\<close> keeps its members in insertion order without
  duplicates; \<open>forEach\<close> visits them in that order. It is a duplicate-free list.
\<close>

type_synonym StringSet = "string list"

definition Set_add :: "string \<Rightarrow> StringSet \<Rightarrow> StringSet" where
  "Set_add x xs = (if x \<in> set xs then xs else xs @ [x])"

record ('v, 'e, 'w) SessionState =
  items :: "string \<rightharpoonup> 'v SessionItem"
  reverseItemMap :: "string \<rightharpoonup> StringSet"
  valueSets :: "string \<rightharpoonup> 'w SessionValueSet"
  errors :: "'e list"
  locale_opt :: "string option"
  rev_no :: int
  complete :: bool

datatype ('v, 'e, 'w) Action =
    RESET
  | ANSWER string 'v
  | ITEM "'v SessionItem"
  | ERROR 'e
  | LOCALE string
  | VALUE_SET "'w SessionValueSet"
  | REMOVE_ITEMS "string list"
  | COMPLETE
  | NEXT
  | PREVIOUS
  | OTHER string

text \<open>The tag of an action; \<open>OTHER t\<close> stands for any action object whose tag \<open>t\<close>
  falls through the whole if-chain of the reducer, so it is meant for the tags outside
  \<open>known_types\<close> only.\<close>

fun action_type :: "('v, 'e, 'w) Action \<Rightarrow> string" where
  "action_type RESET = ''RESET''"
| "action_type (ANSWER i v) = ''ANSWER''"
| "action_type (ITEM it) = ''ITEM''"
| "action_type (ERROR e) = ''ERROR''"
| "action_type (LOCALE l) = ''LOCALE''"
| "action_type (VALUE_SET vs) = ''VALUE_SET''"
| "action_type (REMOVE_ITEMS ids) = ''REMOVE_ITEMS''"
| "action_type COMPLETE = ''COMPLETE''"
| "action_type NEXT = ''NEXT''"
| "action_type PREVIOUS = ''PREVIOUS''"
| "action_type (OTHER t) = t"

definition known_types :: "string list" where
  "known_types = [''RESET'', ''ANSWER'', ''ITEM'', ''ERROR'', ''LOCALE'', ''VALUE_SET'',
     ''REMOVE_ITEMS'', ''COMPLETE'', ''NEXT'', ''PREVIOUS'']"

text \<open>
  Modelled from the spec: error.ts is not part of the sources. What is thrown, or rejects
  a promise, is a plain \<open>DialobError\<close>, the distinguished request error of the
  transport, each with its message, or a \<open>TypeError\<close> of the language itself, here with
  the name of the method that turned out not to be a function.
\<close>

datatype JsError = DialobError string | DialobRequestError string | TypeError string

fun instanceof_DialobRequestError :: "JsError \<Rightarrow> bool" where
  "instanceof_DialobRequestError (DialobRequestError m) = True"
| "instanceof_DialobRequestError (DialobError m) = False"
| "instanceof_DialobRequestError (TypeError m) = False"

datatype SyncState = INPROGRESS | DONE
datatype ErrorClass = CLIENT | SYNC
datatype Event = update | sync | error

text \<open>
  A listener is a function reference, compared by identity: a natural number names it.
  Everything the session does to its collaborators is recorded as a call, in order:
  a listener called with its arguments, or a request handed to the transport.
\<close>

type_synonym listener = nat

datatype ('v, 'e, 'w) call =
    UpdateCall listener
  | SyncCall listener SyncState
  | ErrorCall listener ErrorClass JsError
  | TransportUpdate string "('v, 'e, 'w) Action list" int
  | TransportGetFullState string

record ('v, 'e, 'w) Session =
  session_id :: string
  state :: "('v, 'e, 'w) SessionState"
  syncActionQueue :: "('v, 'e, 'w) Action list"
  syncTimer :: "nat option"
  update_listeners :: "listener list"
  sync_listeners :: "listener list"
  error_listeners :: "listener list"

definition emptyState :: "('v, 'e, 'w) SessionState" where
  "emptyState = \<lparr> items = Map.empty, reverseItemMap = Map.empty, valueSets = Map.empty,
     errors = [], locale_opt = None, rev_no = 0, complete = False \<rparr>"

definition newSession :: "string \<Rightarrow> ('v, 'e, 'w) Session" where
  "newSession i = \<lparr> session_id = i, state = emptyState, syncActionQueue = [],
     syncTimer = None, update_listeners = [], sync_listeners = [], error_listeners = [] \<rparr>"

section \<open>Array primitives\<close>

fun findIndex :: "('a \<Rightarrow> bool) \<Rightarrow> 'a list \<Rightarrow> int" where
  "findIndex p [] = - 1"
| "findIndex p (y # ys) =
     (if p y then 0 else (let i = findIndex p ys in if i = - 1 then - 1 else i + 1))"

definition indexOf :: "'a \<Rightarrow> 'a list \<Rightarrow> int" where
  "indexOf x xs = findIndex (\<lambda>y. y = x) xs"

text \<open>\<open>Array.prototype.splice(start, deleteCount)\<close> without inserted elements: a negative
  start counts from the end, and both numbers are clamped to the array.\<close>

definition splice :: "int \<Rightarrow> int \<Rightarrow> 'a list \<Rightarrow> 'a list" where
  "splice start deleteCount xs =
     (let len = int (length xs);
          actualStart = (if start < 0 then max (len + start) 0 else min start len);
          actualDeleteCount = min (max deleteCount 0) (len - actualStart)
      in take (nat actualStart) xs @ drop (nat (actualStart + actualDeleteCount)) xs)"

section \<open>Plain objects as dictionaries\<close>

text \<open>
  \<open>items\<close>, \<open>reverseItemMap\<close> and \<open>valueSets\<close> are plain objects. A map holds
  the own properties of such an object. Reading a key that is no own property goes on
  to \<open>Object.prototype\<close>: for the names below it finds a member of the host (a
  function, or \<open>Object.prototype\<close> itself for \<open>__proto__\<close>), which is truthy, is
  no item and no \<open>Set\<close>, and has no \<open>type\<close> and no \<open>items\<close>; for every other name
  it finds nothing.

  Assigning to \<open>__proto__\<close> creates no own property, it replaces the prototype of the
  object, and \<open>delete\<close> does not undo that. The entry of a map under \<open>__proto__\<close>
  stands for the replaced prototype: reading \<open>__proto__\<close> returns it. What the other
  keys inherit from a replaced prototype depends on every field of the item put there,
  which actions.ts declares; the model does not follow it, and a statement about reading
  keys that are no own properties asks for no entry under \<open>__proto__\<close>.
\<close>

definition Object_prototype_keys :: "string list" where
  "Object_prototype_keys = [''constructor'', ''__defineGetter__'', ''__defineSetter__'',
     ''hasOwnProperty'', ''__lookupGetter__'', ''__lookupSetter__'', ''isPrototypeOf'',
     ''propertyIsEnumerable'', ''toString'', ''valueOf'', ''__proto__'', ''toLocaleString'']"

datatype 'a slot = Own 'a | Inherited | Absent

definition get_property :: "(string \<rightharpoonup> 'a) \<Rightarrow> string \<Rightarrow> 'a slot" where
  "get_property obj k =
     (case obj k of
        Some v \<Rightarrow> Own v
      | None \<Rightarrow> if k \<in> set Object_prototype_keys then Inherited else Absent)"

definition set_property :: "(string \<rightharpoonup> 'a) \<Rightarrow> string \<Rightarrow> 'a \<Rightarrow> (string \<rightharpoonup> 'a)" where
  "set_property obj k v = obj(k \<mapsto> v)"

definition delete_property :: "(string \<rightharpoonup> 'a) \<Rightarrow> string \<Rightarrow> (string \<rightharpoonup> 'a)" where
  "delete_property obj k = (if k = ''__proto__'' then obj else obj(k := None))"

section \<open>The reducer\<close>

text \<open>
  The recipe of \<open>produce\<close> works on a draft of the state. Objects and arrays it reaches
  through the draft are copied before they change, so the current state keeps them as
  they are. A \<open>Set\<close> is not drafted: \<open>state.reverseItemMap[refId]\<close> is the \<open>Set\<close>
  object of the current state itself, and \<open>add\<close> changes it in place, whatever becomes
  of the draft. So the draft comes with two more things: for every key, whether the
  \<open>Set\<close> the draft holds under it is still the one of the current state
  (\<open>shared\<close>), and the \<open>Set\<close> objects of the current state as they are by now
  (\<open>base_sets\<close>).
\<close>

record ('v, 'e, 'w) Draft =
  draft :: "('v, 'e, 'w) SessionState"
  shared :: "string \<Rightarrow> bool"
  base_sets :: "string \<rightharpoonup> StringSet"

definition add_in_place :: "string \<Rightarrow> string \<Rightarrow> (string \<rightharpoonup> StringSet) \<Rightarrow> (string \<rightharpoonup> StringSet)" where
  "add_in_place k x sets =
     (case sets k of None \<Rightarrow> sets | Some s \<Rightarrow> sets(k \<mapsto> Set_add x s))"

text \<open>\<open>insertReverseRef\<close>: an inherited member under \<open>refId\<close> is truthy, so no
  \<open>Set\<close> is created, and it has no \<open>add\<close>.\<close>

fun insertReverseRef ::
  "('v, 'e, 'w) Draft \<Rightarrow> string \<Rightarrow> string list \<Rightarrow> JsError option \<times> ('v, 'e, 'w) Draft" where
  "insertReverseRef d parentId [] = (None, d)"
| "insertReverseRef d parentId (refId # refIds) =
     (case get_property (reverseItemMap (draft d)) refId of
        Inherited \<Rightarrow> (Some (TypeError ''add''), d)
      | Absent \<Rightarrow>
          insertReverseRef
            (d\<lparr>draft := (draft d)\<lparr>reverseItemMap :=
                   set_property (reverseItemMap (draft d)) refId (Set_add parentId [])\<rparr>,
               shared := (shared d)(refId := False)\<rparr>)
            parentId refIds
      | Own s \<Rightarrow>
          insertReverseRef
            (d\<lparr>draft := (draft d)\<lparr>reverseItemMap :=
                   set_property (reverseItemMap (draft d)) refId (Set_add parentId s)\<rparr>,
               base_sets := (if shared d refId then add_in_place refId parentId (base_sets d)
                             else base_sets d)\<rparr>)
            parentId refIds)"

definition handleError :: "listener list \<Rightarrow> JsError \<Rightarrow> ('v, 'e, 'w) call list" where
  "handleError ls e =
     (if instanceof_DialobRequestError e then map (\<lambda>l. ErrorCall l SYNC e) ls
      else map (\<lambda>l. ErrorCall l CLIENT e) ls)"

definition quoted :: "string \<Rightarrow> string" where
  "quoted s = CHR 0x27 # s @ [CHR 0x27]"

definition not_an_answer :: "string \<Rightarrow> bool" where
  "not_an_answer t =
     (t = ''questionnaire'' \<or> t = ''group'' \<or> t = ''surveygroup'' \<or> t = ''note'')"

text \<open>The body of the \<open>forEach\<close> in REMOVE_ITEMS, for one member \<open>reference\<close> of
  \<open>reverseItemMap[id]\<close>; it searches the parent's children for \<open>reference\<close>.\<close>

definition removeReference ::
  "string \<Rightarrow> (string \<rightharpoonup> 'v SessionItem) \<Rightarrow> (string \<rightharpoonup> 'v SessionItem)" where
  "removeReference reference its =
     (case get_property its reference of
        Absent \<Rightarrow> its
      | Inherited \<Rightarrow> its
      | Own referencedItem \<Rightarrow>
          (case item_items referencedItem of
             None \<Rightarrow> its
           | Some children \<Rightarrow>
               (let idx = indexOf reference children
                in if idx = - 1 then its
                   else its(reference \<mapsto>
                          referencedItem\<lparr>item_items := Some (splice idx 1 children)\<rparr>))))"

text \<open>One round of the loop over \<open>action.ids\<close>. An inherited member under \<open>id\<close>
  is truthy and has no \<open>forEach\<close>.\<close>

definition removeItem ::
  "string \<Rightarrow> ('v, 'e, 'w) Draft \<Rightarrow> JsError option \<times> ('v, 'e, 'w) Draft" where
  "removeItem i d =
     (let items1 = delete_property (items (draft d)) i
      in case get_property (reverseItemMap (draft d)) i of
           Inherited \<Rightarrow> (Some (TypeError ''forEach''), d\<lparr>draft := (draft d)\<lparr>items := items1\<rparr>\<rparr>)
         | Absent \<Rightarrow>
             (None, d\<lparr>draft := (draft d)\<lparr>items := items1,
                        reverseItemMap := delete_property (reverseItemMap (draft d)) i\<rparr>,
                      shared := (shared d)(i := False)\<rparr>)
         | Own refs \<Rightarrow>
             (None, d\<lparr>draft := (draft d)\<lparr>items := fold removeReference refs items1,
                        reverseItemMap := delete_property (reverseItemMap (draft d)) i\<rparr>,
                      shared := (shared d)(i := False)\<rparr>))"

fun removeItems ::
  "string list \<Rightarrow> ('v, 'e, 'w) Draft \<Rightarrow> JsError option \<times> ('v, 'e, 'w) Draft" where
  "removeItems [] d = (None, d)"
| "removeItems (i # ids) d =
     (case removeItem i d of
        (Some e, d') \<Rightarrow> (Some e, d')
      | (None, d') \<Rightarrow> removeItems ids d')"

text \<open>
  One round of the loop over the actions. The result is the calls made to listeners,
  the error thrown if any, and the draft as it is at that moment. ANSWER on a key that
  only finds an inherited member does not throw: the member is truthy and has no
  \<open>type\<close>; the value is written to that member, which belongs to the host and not to
  the session, and the draft stays as it is.
\<close>

fun applyAction ::
  "listener list \<Rightarrow> ('v, 'e, 'w) Action \<Rightarrow> ('v, 'e, 'w) Draft \<Rightarrow>
     ('v, 'e, 'w) call list \<times> JsError option \<times> ('v, 'e, 'w) Draft" where
  "applyAction ls RESET d =
     ([], None,
      d\<lparr>draft := (draft d)\<lparr>items := Map.empty, reverseItemMap := Map.empty,
             valueSets := Map.empty, errors := [], locale_opt := None, complete := False\<rparr>,
        shared := (\<lambda>k. False)\<rparr>)"
| "applyAction ls (ANSWER i v) d =
     (case get_property (items (draft d)) i of
        Absent \<Rightarrow> ([], Some (DialobError (''No item found with id '' @ quoted i)), d)
      | Inherited \<Rightarrow> ([], None, d)
      | Own answer \<Rightarrow>
          if not_an_answer (item_type answer)
          then ([], Some (DialobError (''Item '' @ quoted i @ '' is not an answer!'')), d)
          else ([], None,
                d\<lparr>draft := (draft d)\<lparr>items :=
                     set_property (items (draft d)) i (answer\<lparr>item_value := v\<rparr>)\<rparr>\<rparr>))"
| "applyAction ls (ITEM item) d =
     (let d1 = d\<lparr>draft := (draft d)\<lparr>items :=
                  set_property (items (draft d)) (item_id item) item\<rparr>\<rparr>
      in case item_items item of
           None \<Rightarrow> ([], None, d1)
         | Some refIds \<Rightarrow>
             (case insertReverseRef d1 (item_id item) refIds of (t, d2) \<Rightarrow> ([], t, d2)))"
| "applyAction ls (ERROR e) d =
     ([], None, d\<lparr>draft := (draft d)\<lparr>errors := errors (draft d) @ [e]\<rparr>\<rparr>)"
| "applyAction ls (LOCALE v) d = ([], None, d\<lparr>draft := (draft d)\<lparr>locale_opt := Some v\<rparr>\<rparr>)"
| "applyAction ls (VALUE_SET vs) d =
     ([], None, d\<lparr>draft := (draft d)\<lparr>valueSets :=
                   set_property (valueSets (draft d)) (vs_id vs) vs\<rparr>\<rparr>)"
| "applyAction ls (REMOVE_ITEMS ids) d =
     (case removeItems ids d of (t, d') \<Rightarrow> ([], t, d'))"
| "applyAction ls COMPLETE d = ([], None, d\<lparr>draft := (draft d)\<lparr>complete := True\<rparr>\<rparr>)"
| "applyAction ls NEXT d = ([], None, d)"
| "applyAction ls PREVIOUS d = ([], None, d)"
| "applyAction ls (OTHER t) d =
     (handleError ls (DialobError ''Unexpected action type!''), None, d)"

fun reduce ::
  "listener list \<Rightarrow> ('v, 'e, 'w) Action list \<Rightarrow> ('v, 'e, 'w) Draft \<Rightarrow>
     ('v, 'e, 'w) call list \<times> JsError option \<times> ('v, 'e, 'w) Draft" where
  "reduce ls [] d = ([], None, d)"
| "reduce ls (a # as) d =
     (case applyAction ls a d of
        (cs, Some e, d') \<Rightarrow> (cs, Some e, d')
      | (cs, None, d') \<Rightarrow> (case reduce ls as d' of (cs', r) \<Rightarrow> (cs @ cs', r)))"

text \<open>
  \<open>applyActions\<close>. \<open>if(rev)\<close> is false for an absent rev and for 0. When the recipe
  throws, the draft is dropped, \<open>this.state\<close> is not assigned and no update listener
  runs; the calls already made to error listeners stay made, and the \<open>Set\<close> objects of
  the state keep what was added to them in place.
\<close>

definition begin_draft :: "('v, 'e, 'w) SessionState \<Rightarrow> ('v, 'e, 'w) Draft" where
  "begin_draft st = \<lparr> draft = st, shared = (\<lambda>k. True), base_sets = reverseItemMap st \<rparr>"

definition applyActions ::
  "('v, 'e, 'w) Action list \<Rightarrow> int option \<Rightarrow> ('v, 'e, 'w) Session \<Rightarrow>
     ('v, 'e, 'w) Session \<times> ('v, 'e, 'w) call list \<times> JsError option" where
  "applyActions actions newRev sess =
     (let d0 = begin_draft (state sess);
          d1 = (case newRev of
                  None \<Rightarrow> d0
                | Some r \<Rightarrow> if r \<noteq> 0 then d0\<lparr>draft := (draft d0)\<lparr>rev_no := r\<rparr>\<rparr> else d0)
      in case reduce (error_listeners sess) actions d1 of
           (cs, Some e, d) \<Rightarrow>
             (sess\<lparr>state := (state sess)\<lparr>reverseItemMap := base_sets d\<rparr>\<rparr>, cs, Some e)
         | (cs, None, d) \<Rightarrow>
             (sess\<lparr>state := draft d\<rparr>, cs @ map UpdateCall (update_listeners sess), None))"

section \<open>Listeners\<close>

fun listeners_of :: "Event \<Rightarrow> ('v, 'e, 'w) Session \<Rightarrow> listener list" where
  "listeners_of update s = update_listeners s"
| "listeners_of sync s = sync_listeners s"
| "listeners_of error s = error_listeners s"

fun set_listeners ::
  "Event \<Rightarrow> listener list \<Rightarrow> ('v, 'e, 'w) Session \<Rightarrow> ('v, 'e, 'w) Session" where
  "set_listeners update ls s = s\<lparr>update_listeners := ls\<rparr>"
| "set_listeners sync ls s = s\<lparr>sync_listeners := ls\<rparr>"
| "set_listeners error ls s = s\<lparr>error_listeners := ls\<rparr>"

definition on :: "Event \<Rightarrow> listener \<Rightarrow> ('v, 'e, 'w) Session \<Rightarrow> ('v, 'e, 'w) Session" where
  "on type l s = set_listeners type (listeners_of type s @ [l]) s"

definition removeListener ::
  "Event \<Rightarrow> listener \<Rightarrow> ('v, 'e, 'w) Session \<Rightarrow> ('v, 'e, 'w) Session" where
  "removeListener type l s =
     (let target = listeners_of type s;
          idx = findIndex (\<lambda>t. t = l) target
      in set_listeners type (splice idx 1 target) s)"

section \<open>Timers of the host\<close>

text \<open>
  \<open>setTimeout\<close> and \<open>clearTimeout\<close> belong to the host. The host keeps a clock in
  milliseconds and the timers that are armed, each with its handle and the time it is
  due; handles are positive and never reused. The only callback the session ever
  registers is \<open>syncQueuedActions\<close>, so a timer needs no callback field.
\<close>

record Timers =
  clock :: nat
  last_handle :: nat
  pending :: "(nat \<times> nat) list"

definition noTimers :: Timers where
  "noTimers = \<lparr> clock = 0, last_handle = 0, pending = [] \<rparr>"

definition setTimeout :: "nat \<Rightarrow> Timers \<Rightarrow> nat \<times> Timers" where
  "setTimeout delay T =
     (let h = Suc (last_handle T)
      in (h, T\<lparr>last_handle := h, pending := pending T @ [(h, clock T + delay)]\<rparr>))"

definition clearTimeout :: "nat \<Rightarrow> Timers \<Rightarrow> Timers" where
  "clearTimeout h T = T\<lparr>pending := filter (\<lambda>p. fst p \<noteq> h) (pending T)\<rparr>"

section \<open>Syncing\<close>


text \<open>\<open>if(this.syncTimer)\<close>: an absent handle and the handle 0 are both false.\<close>

definition queueAction ::
  "('v, 'e, 'w) Action \<Rightarrow> ('v, 'e, 'w) Session \<times> Timers \<Rightarrow>
     (('v, 'e, 'w) Session \<times> Timers) \<times> ('v, 'e, 'w) call list \<times> JsError option" where
  "queueAction action w =
     (let s = fst w;
          T1 = (case syncTimer s of
                  None \<Rightarrow> snd w
                | Some t \<Rightarrow> if t \<noteq> 0 then clearTimeout t (snd w) else snd w);
          (h, T2) = setTimeout 500 T1;
          s1 = s\<lparr>syncTimer := Some h\<rparr>;
          s2 = s1\<lparr>syncActionQueue := syncActionQueue s1 @ [action]\<rparr>;
          (s3, cs, thrown) = applyActions [action] None s2
      in ((s3, T2), cs, thrown))"

text \<open>
  \<open>sync\<close> and \<open>pull\<close> are asynchronous. The part before the \<open>await\<close> runs at once:
  the sync listeners hear INPROGRESS and the request goes to the transport. The rest runs
  when the transport answers: \<open>settle\<close> with the response, or with the error that
  rejected the request; its last component is the error the returned promise rejects with.
\<close>

definition sync_request ::
  "('v, 'e, 'w) Action list \<Rightarrow> int \<Rightarrow> ('v, 'e, 'w) Session \<Rightarrow> ('v, 'e, 'w) call list" where
  "sync_request actions r s =
     map (\<lambda>l. SyncCall l INPROGRESS) (sync_listeners s) @
     [TransportUpdate (session_id s) actions r]"



definition syncQueuedActions ::
  "('v, 'e, 'w) Session \<times> Timers \<Rightarrow> (('v, 'e, 'w) Session \<times> Timers) \<times> ('v, 'e, 'w) call list" where
  "syncQueuedActions w =
     (let s = fst w;
          T1 = (case syncTimer s of
                  None \<Rightarrow> snd w
                | Some t \<Rightarrow> if t \<noteq> 0 then clearTimeout t (snd w) else snd w);
          s1 = (case syncTimer s of
                  None \<Rightarrow> s
                | Some t \<Rightarrow> if t \<noteq> 0 then s\<lparr>syncTimer := None\<rparr> else s);
          queue = syncActionQueue s1;
          s2 = s1\<lparr>syncActionQueue := []\<rparr>
      in ((s2, T1), sync_request queue (rev_no (state s2)) s2))"

definition setAnswer ::
  "string \<Rightarrow> 'v \<Rightarrow> ('v, 'e, 'w) Session \<times> Timers \<Rightarrow>
     (('v, 'e, 'w) Session \<times> Timers) \<times> ('v, 'e, 'w) call list \<times> JsError option" where
  "setAnswer itemId answer w = queueAction (ANSWER itemId answer) w"

definition complete_call ::
  "('v, 'e, 'w) Session \<times> Timers \<Rightarrow>
     (('v, 'e, 'w) Session \<times> Timers) \<times> ('v, 'e, 'w) call list \<times> JsError option" where
  "complete_call w = queueAction COMPLETE w"

definition next_call ::
  "('v, 'e, 'w) Session \<times> Timers \<Rightarrow>
     (('v, 'e, 'w) Session \<times> Timers) \<times> ('v, 'e, 'w) call list \<times> JsError option" where
  "next_call w = queueAction NEXT w"

definition previous_call ::
  "('v, 'e, 'w) Session \<times> Timers \<Rightarrow>
     (('v, 'e, 'w) Session \<times> Timers) \<times> ('v, 'e, 'w) call list \<times> JsError option" where
  "previous_call w = queueAction PREVIOUS w"

section \<open>A session in its host\<close>

text \<open>
  The world is the session, the timers of the host, the calls made so far and the
  errors that escaped to a caller (thrown by a public method or rejecting a promise).
  Listeners and the transport are inert: they are recorded, they do not call back into
  the session. The host is deterministic about timers: when the clock moves on, every
  timer that has become due fires before anything else happens. The transport may
  settle a request at any moment and with any outcome.
\<close>

record ('v, 'e, 'w) World =
  session :: "('v, 'e, 'w) Session"
  timers :: Timers
  calls :: "('v, 'e, 'w) call list"
  raised :: "JsError list"

definition newWorld :: "string \<Rightarrow> ('v, 'e, 'w) World" where
  "newWorld i = \<lparr> session = newSession i, timers = noTimers, calls = [], raised = [] \<rparr>"

definition escaped :: "JsError option \<Rightarrow> JsError list" where
  "escaped t = (case t of None \<Rightarrow> [] | Some e \<Rightarrow> [e])"

text \<open>A public method called in the world: what it throws escapes to its caller.\<close>

definition perform ::
  "(('v, 'e, 'w) Session \<times> Timers \<Rightarrow>
      (('v, 'e, 'w) Session \<times> Timers) \<times> ('v, 'e, 'w) call list \<times> JsError option) \<Rightarrow>
   ('v, 'e, 'w) World \<Rightarrow> ('v, 'e, 'w) World" where
  "perform method w =
     (case method (session w, timers w) of
        ((s, T), cs, t) \<Rightarrow>
          w\<lparr>session := s, timers := T, calls := calls w @ cs, raised := raised w @ escaped t\<rparr>)"

definition enqueue :: "('v, 'e, 'w) Action \<Rightarrow> ('v, 'e, 'w) World \<Rightarrow> ('v, 'e, 'w) World" where
  "enqueue action w = perform (queueAction action) w"

definition fire :: "nat \<Rightarrow> ('v, 'e, 'w) World \<Rightarrow> ('v, 'e, 'w) World" where
  "fire h w =
     (case syncQueuedActions (session w, clearTimeout h (timers w)) of
        ((s, T), cs) \<Rightarrow> w\<lparr>session := s, timers := T, calls := calls w @ cs\<rparr>)"

fun fire_due :: "nat list \<Rightarrow> ('v, 'e, 'w) World \<Rightarrow> ('v, 'e, 'w) World" where
  "fire_due [] w = w"
| "fire_due (h # hs) w =
     fire_due hs
       (case map_of (pending (timers w)) h of
          None \<Rightarrow> w
        | Some due \<Rightarrow> if due \<le> clock (timers w) then fire h w else w)"

definition elapse :: "nat \<Rightarrow> ('v, 'e, 'w) World \<Rightarrow> ('v, 'e, 'w) World" where
  "elapse dt w =
     (let w1 = w\<lparr>timers := (timers w)\<lparr>clock := clock (timers w) + dt\<rparr>\<rparr>
      in fire_due (map fst (pending (timers w1))) w1)"




text \<open>The batches handed to \<open>transport.update\<close>, in order: the flushes.\<close>

fun flushes :: "('v, 'e, 'w) call list \<Rightarrow> ('v, 'e, 'w) Action list list" where
  "flushes [] = []"
| "flushes (TransportUpdate i actions r # cs) = actions # flushes cs"
| "flushes (c # cs) = flushes cs"

text \<open>A timeline of enqueue calls: each call comes \<open>gap\<close> milliseconds after the one
  before it.\<close>

fun enqueue_all ::
  "(nat \<times> ('v, 'e, 'w) Action) list \<Rightarrow> ('v, 'e, 'w) World \<Rightarrow> ('v, 'e, 'w) World" where
  "enqueue_all [] w = w"
| "enqueue_all ((gap, a) # evs) w = enqueue_all evs (enqueue a (elapse gap w))"

section \<open>The reverse reference index\<close>

definition is_child :: "('v, 'e, 'w) SessionState \<Rightarrow> string \<Rightarrow> string \<Rightarrow> bool" where
  "is_child st parentId childId =
     (case items st parentId of
        None \<Rightarrow> False
      | Some p \<Rightarrow> (case item_items p of None \<Rightarrow> False | Some ch \<Rightarrow> childId \<in> set ch))"

definition has_reverse_ref :: "('v, 'e, 'w) SessionState \<Rightarrow> string \<Rightarrow> string \<Rightarrow> bool" where
  "has_reverse_ref st parentId childId =
     (case reverseItemMap st childId of None \<Rightarrow> False | Some s \<Rightarrow> parentId \<in> set s)"

fun is_REMOVE_ITEMS :: "('v, 'e, 'w) Action \<Rightarrow> bool" where
  "is_REMOVE_ITEMS (REMOVE_ITEMS ids) = True"
| "is_REMOVE_ITEMS a = False"

definition apply_batches ::
  "(('v, 'e, 'w) Action list \<times> int option) list \<Rightarrow> ('v, 'e, 'w) Session \<Rightarrow> ('v, 'e, 'w) Session" where
  "apply_batches bs s = fold (\<lambda>b s. fst (applyActions (fst b) (snd b) s)) bs s"

text \<open>Every child listed by a container is recorded under the child in the index.\<close>

definition forward_closed :: "('v, 'e, 'w) SessionState \<Rightarrow> bool" where
  "forward_closed st = (\<forall>p c. is_child st p c \<longrightarrow> has_reverse_ref st p c)"

section \<open>States of the debounce cycle\<close>

text \<open>A world is quiet when no timer is armed and nothing is queued; it is debouncing
  a queue when the handle in \<open>syncTimer\<close> is the one timer pending in the host.\<close>

definition quiet :: "('v, 'e, 'w) World \<Rightarrow> bool" where
  "quiet w = (syncTimer (session w) = None \<and> pending (timers w) = [] \<and>
     syncActionQueue (session w) = [])"

definition debouncing :: "('v, 'e, 'w) World \<Rightarrow> ('v, 'e, 'w) Action list \<Rightarrow> bool" where
  "debouncing w q =
     (syncTimer (session w) \<noteq> None \<and> syncTimer (session w) \<noteq> Some 0 \<and>
      map (\<lambda>p. Some (fst p)) (pending (timers w)) = [syncTimer (session w)] \<and>
      syncActionQueue (session w) = q)"


text \<open>The pending timers after the \<open>clearTimeout\<close> of \<open>queueAction\<close>.\<close>

definition cleared :: "('v, 'e, 'w) World \<Rightarrow> (nat \<times> nat) list" where
  "cleared w = (case syncTimer (session w) of
                  None \<Rightarrow> pending (timers w)
                | Some t \<Rightarrow> if t \<noteq> 0 then filter (\<lambda>p. fst p \<noteq> t) (pending (timers w))
                            else pending (timers w))"

text \<open>The world with the clock moved on and nothing fired.\<close>

definition shifted :: "nat \<Rightarrow> ('v, 'e, 'w) World \<Rightarrow> ('v, 'e, 'w) World" where
  "shifted dt w = w\<lparr>timers := (timers w)\<lparr>clock := clock (timers w) + dt\<rparr>\<rparr>"


text \<open>Membership in the \<open>Set\<close> kept under a key of a dictionary of Sets.\<close>

definition ref_in :: "(string \<rightharpoonup> StringSet) \<Rightarrow> string \<Rightarrow> string \<Rightarrow> bool" where
  "ref_in m p c = (case m c of None \<Rightarrow> False | Some s \<Rightarrow> p \<in> set s)"


section \<open>Example data\<close>

definition q1 :: "string option SessionItem" where
  "q1 = \<lparr> item_id = ''q1'', item_type = ''group'', item_items = Some [''a1''],
     item_value = None \<rparr>"

definition a1 :: "string option SessionItem" where
  "a1 = \<lparr> item_id = ''a1'', item_type = ''text'', item_items = None, item_value = None \<rparr>"


definition session0 :: "(string option, unit, unit) Session" where
  "session0 = newSession ''s''"

definition world0 :: "(string option, unit, unit) World" where
  "world0 = newWorld ''s''"

text \<open>The three components of what \<open>applyActions\<close>, \<open>queueAction\<close> and \<open>settle\<close>
  return: the session afterwards, the calls made, the error thrown to the caller.\<close>

abbreviation after :: "'a \<times> 'b \<times> 'c \<Rightarrow> 'a" where
  "after r \<equiv> fst r"

abbreviation called :: "'a \<times> 'b \<times> 'c \<Rightarrow> 'b" where
  "called r \<equiv> fst (snd r)"

abbreviation thrown :: "'a \<times> 'b \<times> 'c \<Rightarrow> 'c" where
  "thrown r \<equiv> snd (snd r)"

section \<open>Basic facts\<close>

lemmas eval_defs = applyActions_def begin_draft_def newSession_def emptyState_def session0_def
  q1_def a1_def removeItem_def removeReference_def indexOf_def Set_add_def splice_def quoted_def
  not_an_answer_def handleError_def get_property_def set_property_def delete_property_def
  add_in_place_def Object_prototype_keys_def Let_def

lemma insertReverseRef_frame:
  "insertReverseRef d p refs = (t, d') \<Longrightarrow>
   draft d' = (draft d)\<lparr>reverseItemMap := reverseItemMap (draft d')\<rparr>"
proof (induction refs arbitrary: d)
  case Nil
  then show ?case by simp
next
  case (Cons r refs)
  show ?case
  proof (cases "get_property (reverseItemMap (draft d)) r")
    case (Own s)
    with Cons.prems Cons.IH [of "d\<lparr>draft := (draft d)\<lparr>reverseItemMap :=
                   set_property (reverseItemMap (draft d)) r (Set_add p s)\<rparr>,
               base_sets := (if shared d r then add_in_place r p (base_sets d)
                             else base_sets d)\<rparr>"]
    show ?thesis by simp
  next
    case Inherited
    with Cons.prems show ?thesis by auto
  next
    case Absent
    with Cons.prems Cons.IH [of "d\<lparr>draft := (draft d)\<lparr>reverseItemMap :=
                   set_property (reverseItemMap (draft d)) r (Set_add p [])\<rparr>,
               shared := (shared d)(r := False)\<rparr>"]
    show ?thesis by simp
  qed
qed






lemma findIndex_absent: "l \<notin> set xs \<Longrightarrow> findIndex (\<lambda>t. t = l) xs = - 1"
  by (induction xs) (auto simp: Let_def)

lemma splice_last: "splice (- 1) 1 xs = butlast xs"
  by (cases xs rule: rev_cases) (simp_all add: splice_def Let_def butlast_conv_take)

lemma flushes_SyncCalls: "flushes (map (\<lambda>l. SyncCall l x) ls @ cs) = flushes cs"
  by (induction ls) simp_all

lemma flushes_sync_request: "flushes (sync_request actions r s) = [actions]"
  by (simp add: sync_request_def flushes_SyncCalls)

lemma syncQueuedActions_flushes:
  "flushes (snd (syncQueuedActions (s, T))) = [syncActionQueue s]"
  by (simp add: syncQueuedActions_def Let_def flushes_sync_request split: option.splits)

lemma flushes_append: "flushes (cs @ cs') = flushes cs @ flushes cs'"
  by (induction cs rule: flushes.induct) simp_all

lemma flushes_UpdateCalls: "flushes (map UpdateCall ls) = []"
  by (induction ls) simp_all

lemma flushes_ErrorCalls: "flushes (map (\<lambda>l. ErrorCall l c e) ls) = []"
  by (induction ls) simp_all

lemma flushes_handleError: "flushes (handleError ls e) = []"
  by (simp add: handleError_def flushes_ErrorCalls)

lemma flushes_applyAction: "flushes (fst (applyAction ls a d)) = []"
  by (cases a)
    (simp_all add: flushes_handleError Let_def split: slot.splits option.splits prod.splits)

lemma flushes_reduce: "flushes (fst (reduce ls as d)) = []"
proof (induction as arbitrary: d)
  case Nil
  then show ?case by simp
next
  case (Cons a as)
  obtain cs1 t1 d1 where r: "applyAction ls a d = (cs1, t1, d1)"
    by (cases "applyAction ls a d")
  have 1: "flushes cs1 = []"
    using flushes_applyAction [of ls a d] r by simp
  show ?case
  proof (cases t1)
    case None
    obtain cs2 t2 d2 where r2: "reduce ls as d1 = (cs2, t2, d2)"
      by (cases "reduce ls as d1")
    have "flushes cs2 = []"
      using Cons.IH [of d1] r2 by simp
    with 1 r r2 None show ?thesis by (simp add: flushes_append)
  next
    case (Some e)
    with 1 r show ?thesis by simp
  qed
qed

lemma applyActions_cases:
  "(\<exists>cs st. applyActions as r s =
       (s\<lparr>state := st\<rparr>, cs @ map UpdateCall (update_listeners s), None) \<and>
       flushes cs = []) \<or>
   (\<exists>cs e m. applyActions as r s =
       (s\<lparr>state := (state s)\<lparr>reverseItemMap := m\<rparr>\<rparr>, cs, Some e) \<and>
       flushes cs = [])"
proof -
  define d1 where "d1 = (case r of None \<Rightarrow> begin_draft (state s)
     | Some r \<Rightarrow> if r \<noteq> 0 then (begin_draft (state s))\<lparr>draft := (draft (begin_draft (state s)))\<lparr>rev_no := r\<rparr>\<rparr>
                 else begin_draft (state s))"
  obtain cs t d where red: "reduce (error_listeners s) as d1 = (cs, t, d)"
    by (cases "reduce (error_listeners s) as d1")
  have f: "flushes cs = []"
    using flushes_reduce [of "error_listeners s" as d1] red by simp
  show ?thesis
  proof (cases t)
    case None
    with red have "applyActions as r s = (s\<lparr>state := draft d\<rparr>,
      cs @ map UpdateCall (update_listeners s), None)"
      by (simp add: applyActions_def Let_def d1_def)
    with f show ?thesis by blast
  next
    case (Some e)
    with red have "applyActions as r s =
      (s\<lparr>state := (state s)\<lparr>reverseItemMap := base_sets d\<rparr>\<rparr>, cs, Some e)"
      by (simp add: applyActions_def Let_def d1_def)
    with f show ?thesis by blast
  qed
qed

lemma flushes_applyActions: "flushes (called (applyActions as r s)) = []"
  using applyActions_cases [of as r s]
  by (auto simp: flushes_append flushes_UpdateCalls)

lemma applyActions_frame:
  "after (applyActions as r s) = s\<lparr>state := state (after (applyActions as r s))\<rparr>"
  using applyActions_cases [of as r s] by auto




lemma applyActions_timer_queue:
  "applyActions as r (s\<lparr>syncTimer := x, syncActionQueue := q\<rparr>) =
     ((after (applyActions as r s))\<lparr>syncTimer := x, syncActionQueue := q\<rparr>,
      called (applyActions as r s), thrown (applyActions as r s))"
  by (simp add: applyActions_def Let_def split: prod.splits option.splits)

lemma queueAction_unfold:
  "queueAction action (s, T) =
     (((after (applyActions [action] None s))
         \<lparr>syncTimer := Some (Suc (last_handle T)),
          syncActionQueue := syncActionQueue s @ [action]\<rparr>,
       T\<lparr>last_handle := Suc (last_handle T),
         pending := (case syncTimer s of
                       None \<Rightarrow> pending T
                     | Some t \<Rightarrow> if t \<noteq> 0 then filter (\<lambda>p. fst p \<noteq> t) (pending T)
                                 else pending T)
                    @ [(Suc (last_handle T), clock T + 500)]\<rparr>),
      called (applyActions [action] None s), thrown (applyActions [action] None s))"
  by (simp add: queueAction_def Let_def setTimeout_def clearTimeout_def applyActions_timer_queue
        split: option.splits prod.splits)

lemma queueAction_state:
  "state (fst (after (queueAction action (s, T)))) = state (after (applyActions [action] None s))"
  by (simp add: queueAction_unfold)

section \<open>RESET\<close>

text \<open>
  C6. On every session, the batch that consists of one RESET action, applied without a
  new revision, leaves a state whose items, reverseItemMap and valueSets are empty, whose
  errors are the empty list, whose locale is undefined and whose complete flag is false,
  with the revision it had before. The update listeners are notified and nothing is
  thrown. Inside any batch, the RESET action does the same to the draft it meets, and
  from then on the draft shares no \<open>Set\<close> with the current state.
\<close>

theorem RESET_clears:
  "applyActions [RESET] None sess =
     (sess\<lparr>state := \<lparr> items = Map.empty, reverseItemMap = Map.empty, valueSets = Map.empty,
        errors = [], locale_opt = None, rev_no = rev_no (state sess), complete = False \<rparr>\<rparr>,
      map UpdateCall (update_listeners sess), None) \<and>
   applyAction ls RESET d =
     ([], None,
      d\<lparr>draft := \<lparr> items = Map.empty, reverseItemMap = Map.empty, valueSets = Map.empty,
             errors = [], locale_opt = None, rev_no = rev_no (draft d), complete = False \<rparr>,
        shared := (\<lambda>k. False)\<rparr>)"
  by (simp add: applyActions_def begin_draft_def)

theorem RESET_clears_witness:
  "rev_no (state (after (applyActions [ITEM q1, COMPLETE] (Some 3) session0))) = 3 \<and>
   complete (state (after (applyActions [ITEM q1, COMPLETE] (Some 3) session0))) \<and>
   state (after (applyActions [RESET] None
                   (after (applyActions [ITEM q1, COMPLETE] (Some 3) session0))))
     = emptyState\<lparr>rev_no := 3\<rparr>"
  using RESET_clears [of "after (applyActions [ITEM q1, COMPLETE] (Some 3) session0)"]
  by (simp add: eval_defs)

section \<open>REMOVE_ITEMS\<close>

text \<open>
  C1. The example scenario, run on the code: from the empty session, the batch
  ITEM(q1 with children [a1]), ITEM(a1), REMOVE_ITEMS([a1]) throws nothing, deletes
  \<open>items[a1]\<close> and \<open>reverseItemMap[a1]\<close>, and leaves \<open>items[q1]\<close> exactly as it was
  inserted: its children are still [a1]. The \<open>forEach\<close> looks for the parent's own id
  among the parent's children (\<open>indexOf(reference)\<close>), not for the removed id.
\<close>

theorem REMOVE_ITEMS_example_keeps_child:
  "thrown (applyActions [ITEM q1, ITEM a1, REMOVE_ITEMS [''a1'']] None session0) = None \<and>
   items (state (after (applyActions [ITEM q1, ITEM a1, REMOVE_ITEMS [''a1'']] None session0)))
     ''a1'' = None \<and>
   reverseItemMap (state (after (applyActions [ITEM q1, ITEM a1, REMOVE_ITEMS [''a1'']] None
     session0))) ''a1'' = None \<and>
   items (state (after (applyActions [ITEM q1, ITEM a1, REMOVE_ITEMS [''a1'']] None session0)))
     ''q1'' = Some q1 \<and>
   item_items q1 = Some [''a1''] \<and>
   is_child (state (after (applyActions [ITEM q1, ITEM a1, REMOVE_ITEMS [''a1'']] None session0)))
     ''q1'' ''a1''"
  by (simp add: eval_defs is_child_def)

text \<open>The same scenario as four separate batches, with the ANSWER of the example in
  between, ends the same way.\<close>

lemma REMOVE_ITEMS_example_batches:
  "is_child (state (apply_batches
       [([ITEM q1], None), ([ITEM a1], None), ([ANSWER ''a1'' (Some ''hello'')], None),
        ([REMOVE_ITEMS [''a1'']], None)] session0)) ''q1'' ''a1''"
  by (simp add: eval_defs is_child_def apply_batches_def)

text \<open>In general the \<open>forEach\<close> body leaves a parent that does not list itself as
  it is, whatever id is being removed.\<close>

lemma removeReference_no_self:
  "its p = Some it \<Longrightarrow> item_items it = Some ch \<Longrightarrow> p \<notin> set ch \<Longrightarrow>
   removeReference p its = its"
  by (simp add: removeReference_def get_property_def indexOf_def findIndex_absent)

text \<open>An id that names a member of \<open>Object.prototype\<close> cannot be removed, and cannot
  be listed as a child: both throw a \<open>TypeError\<close>.\<close>

lemma prototype_names_throw:
  "thrown (applyActions [REMOVE_ITEMS [''constructor'']] None session0)
     = Some (TypeError ''forEach'') \<and>
   thrown (applyActions [ITEM (q1\<lparr>item_items := Some [''toString'']\<rparr>)] None session0)
     = Some (TypeError ''add'')"
  by (simp add: eval_defs)

section \<open>ANSWER\<close>

text \<open>
  C3, as the code has it. Take a session whose \<open>items\<close> object has its ordinary
  prototype, and an id that names no member of \<open>Object.prototype\<close>. The batch that
  consists of one ANSWER(i, v): when \<open>items[i]\<close> is absent, or its type is
  questionnaire, group, surveygroup or note, a \<open>DialobError\<close> is thrown to the caller
  of \<open>applyActions\<close>, no listener of any class is called and the session is unchanged;
  otherwise nothing is thrown, the update listeners are notified, \<open>items[i]\<close> is the
  old item with its value set to \<open>v\<close>, and nothing else differs from what the empty
  batch with the same revision argument leaves.
\<close>

theorem ANSWER_throws_or_sets_value:
  "i \<notin> set Object_prototype_keys \<Longrightarrow> items (state sess) ''__proto__'' = None \<Longrightarrow>
   (case items (state sess) i of
      None \<Rightarrow>
        applyActions [ANSWER i v] newRev sess =
          (sess, [], Some (DialobError (''No item found with id '' @ quoted i)))
    | Some answer \<Rightarrow>
        if not_an_answer (item_type answer)
        then applyActions [ANSWER i v] newRev sess =
               (sess, [], Some (DialobError (''Item '' @ quoted i @ '' is not an answer!'')))
        else thrown (applyActions [ANSWER i v] newRev sess) = None \<and>
             called (applyActions [ANSWER i v] newRev sess) =
               map UpdateCall (update_listeners sess) \<and>
             after (applyActions [ANSWER i v] newRev sess) =
               sess\<lparr>state := (state (after (applyActions [] newRev sess)))
                 \<lparr>items := (items (state sess))(i \<mapsto> answer\<lparr>item_value := v\<rparr>)\<rparr>\<rparr>)"
  by (auto simp: applyActions_def begin_draft_def get_property_def set_property_def Let_def
           split: option.splits)

theorem ANSWER_throws_or_sets_value_witness:
  "''a1'' \<notin> set Object_prototype_keys \<and>
   items (state (after (applyActions [ITEM a1] None session0))) ''__proto__'' = None \<and>
   items (state (after (applyActions [ITEM a1] None session0))) ''a1'' = Some a1 \<and>
   \<not> not_an_answer (item_type a1) \<and>
   thrown (applyActions [ANSWER ''a1'' (Some ''hello'')] None
             (after (applyActions [ITEM a1] None session0))) = None \<and>
   items (state (after (applyActions [ANSWER ''a1'' (Some ''hello'')] None
             (after (applyActions [ITEM a1] None session0))))) ''a1''
     = Some (a1\<lparr>item_value := Some ''hello''\<rparr>) \<and>
   items (state session0) ''__proto__'' = None \<and>
   items (state session0) ''a1'' = None \<and>
   applyActions [ANSWER ''a1'' (Some ''hello'')] None session0
     = (session0, [], Some (DialobError (''No item found with id '' @ quoted ''a1'')))"
  using ANSWER_throws_or_sets_value
          [where sess = "after (applyActions [ITEM a1] None session0)" and i = "''a1''"
             and v = "Some ''hello''" and newRev = None]
        ANSWER_throws_or_sets_value
          [where sess = session0 and i = "''a1''" and v = "Some ''hello''" and newRev = None]
  by (simp add: eval_defs)

text \<open>
  A group cannot be answered: with an error listener subscribed, the error is thrown and
  the listener is not called. And an ANSWER for the id \<open>constructor\<close>, which no item
  has, does not fail at all: the lookup finds the inherited member, nothing is thrown and
  the update listener is notified.
\<close>

theorem ANSWER_failure_counterexample:
  "called (applyActions [ANSWER ''q1'' (Some ''hello'')] None
            (on error 7 (after (applyActions [ITEM q1] None session0)))) = [] \<and>
   thrown (applyActions [ANSWER ''q1'' (Some ''hello'')] None
            (on error 7 (after (applyActions [ITEM q1] None session0))))
     = Some (DialobError (''Item '' @ quoted ''q1'' @ '' is not an answer!'')) \<and>
   error_listeners (on error 7 (after (applyActions [ITEM q1] None session0))) = [7] \<and>
   items (state session0) ''constructor'' = None \<and>
   applyActions [ANSWER ''constructor'' (Some ''hello'')] None (on update 2 (on error 7 session0))
     = (on update 2 (on error 7 session0), [UpdateCall 2], None)"
  by (simp add: eval_defs on_def)

section \<open>The revision\<close>




section \<open>Unexpected actions\<close>

text \<open>
  C8. An action whose tag is none of RESET, ANSWER, ITEM, ERROR, LOCALE, VALUE_SET,
  REMOVE_ITEMS, COMPLETE, NEXT, PREVIOUS makes one call to every error listener, with the
  class CLIENT and the error 'Unexpected action type!', throws nothing and leaves the
  draft as it is. At the head of a batch it adds these calls in front and changes
  nothing else of what the rest of the batch does.
\<close>

theorem unexpected_action_type:
  "action_type a \<notin> set known_types \<Longrightarrow>
   applyAction ls a d =
     (map (\<lambda>l. ErrorCall l CLIENT (DialobError ''Unexpected action type!'')) ls, None, d) \<and>
   applyActions (a # as) newRev sess =
     (after (applyActions as newRev sess),
      map (\<lambda>l. ErrorCall l CLIENT (DialobError ''Unexpected action type!''))
        (error_listeners sess) @ called (applyActions as newRev sess),
      thrown (applyActions as newRev sess))"
  by (cases a)
    (simp_all add: known_types_def handleError_def applyActions_def Let_def
       split: prod.splits option.splits)

theorem unexpected_action_type_witness:
  "action_type (OTHER ''FOO'' :: (string option, unit, unit) Action) \<notin> set known_types \<and>
   applyActions [OTHER ''FOO''] None (on update 2 (on error 7 session0)) =
     (on update 2 (on error 7 session0),
      [ErrorCall 7 CLIENT (DialobError ''Unexpected action type!''), UpdateCall 2], None)"
  using unexpected_action_type
          [where a = "OTHER ''FOO''" and as = "[]" and newRev = None
             and sess = "on update 2 (on error 7 session0)"]
  by (simp add: eval_defs on_def known_types_def)

section \<open>Removing a listener\<close>

text \<open>
  C9. For every event class, \<open>removeListener\<close> with a listener that is not subscribed
  to that class removes the last element of that class's list, the listener added most
  recently, and leaves the other lists alone: \<open>findIndex\<close> returns -1 and
  \<open>splice(-1, 1)\<close> deletes the last element. So it undoes the last \<open>on\<close> of
  another listener.
\<close>

theorem removeListener_unknown_drops_last:
  "l \<notin> set (listeners_of type s) \<Longrightarrow>
   removeListener type l s = set_listeners type (butlast (listeners_of type s)) s \<and>
   listeners_of type (removeListener type l s) = butlast (listeners_of type s) \<and>
   (if l = l' then True else listeners_of type (removeListener type l (on type l' s))
                               = listeners_of type s)"
  by (cases type) (simp_all add: removeListener_def on_def Let_def findIndex_absent splice_last)

theorem removeListener_unknown_drops_last_witness:
  "9 \<notin> set (listeners_of sync (on sync 2 (on sync 1 session0))) \<and>
   listeners_of sync (on sync 2 (on sync 1 session0)) = [1, 2] \<and>
   listeners_of sync (removeListener sync 9 (on sync 2 (on sync 1 session0))) = [1]"
  using removeListener_unknown_drops_last
          [where l = 9 and type = sync and s = "on sync 2 (on sync 1 session0)"]
  by (simp add: on_def session0_def newSession_def)

section \<open>Children and their reverse references\<close>

lemma has_reverse_ref_ref_in: "has_reverse_ref st p c = ref_in (reverseItemMap st) p c"
  by (simp add: has_reverse_ref_def ref_in_def)

lemma ref_in_add_in_place: "ref_in m p c \<Longrightarrow> ref_in (add_in_place k x m) p c"
  by (auto simp: ref_in_def add_in_place_def Set_add_def split: option.splits)

lemma ref_in_set_property:
  "get_property m k = Own s \<Longrightarrow>
   ref_in (set_property m k (Set_add x s)) p c = (ref_in m p c \<or> (p = x \<and> c = k))"
  by (auto simp: ref_in_def get_property_def set_property_def Set_add_def
           split: option.splits if_splits)

lemma ref_in_set_property_new:
  "get_property m k = Absent \<Longrightarrow>
   ref_in (set_property m k (Set_add x [])) p c = (ref_in m p c \<or> (p = x \<and> c = k))"
  by (auto simp: ref_in_def get_property_def set_property_def Set_add_def
           split: option.splits if_splits)

lemma insertReverseRef_base_sets:
  "insertReverseRef d p refs = (t, d') \<Longrightarrow> ref_in (base_sets d) p' c \<Longrightarrow>
   ref_in (base_sets d') p' c"
proof (induction refs arbitrary: d)
  case Nil
  then show ?case by simp
next
  case (Cons r refs)
  show ?case
  proof (cases "get_property (reverseItemMap (draft d)) r")
    case (Own s)
    let ?d = "d\<lparr>draft := (draft d)\<lparr>reverseItemMap :=
                   set_property (reverseItemMap (draft d)) r (Set_add p s)\<rparr>,
               base_sets := (if shared d r then add_in_place r p (base_sets d)
                             else base_sets d)\<rparr>"
    have "ref_in (base_sets ?d) p' c"
      using Cons.prems(2) by (simp add: ref_in_add_in_place)
    with Own Cons.prems(1) Cons.IH [of ?d] show ?thesis by simp
  next
    case Inherited
    with Cons.prems show ?thesis by auto
  next
    case Absent
    let ?d = "d\<lparr>draft := (draft d)\<lparr>reverseItemMap :=
                   set_property (reverseItemMap (draft d)) r (Set_add p [])\<rparr>,
               shared := (shared d)(r := False)\<rparr>"
    have "ref_in (base_sets ?d) p' c"
      using Cons.prems(2) by simp
    with Absent Cons.prems(1) Cons.IH [of ?d] show ?thesis by simp
  qed
qed

lemma insertReverseRef_has_ref:
  "insertReverseRef d p refs = (None, d') \<Longrightarrow>
   has_reverse_ref (draft d') p' c =
     (has_reverse_ref (draft d) p' c \<or> (p' = p \<and> c \<in> set refs))"
proof (induction refs arbitrary: d)
  case Nil
  then show ?case by simp
next
  case (Cons r refs)
  show ?case
  proof (cases "get_property (reverseItemMap (draft d)) r")
    case (Own s)
    let ?d = "d\<lparr>draft := (draft d)\<lparr>reverseItemMap :=
                   set_property (reverseItemMap (draft d)) r (Set_add p s)\<rparr>,
               base_sets := (if shared d r then add_in_place r p (base_sets d)
                             else base_sets d)\<rparr>"
    have "insertReverseRef ?d p refs = (None, d')"
      using Own Cons.prems by simp
    from Cons.IH [OF this] show ?thesis
      by (auto simp: has_reverse_ref_ref_in ref_in_set_property [OF Own])
  next
    case Inherited
    with Cons.prems show ?thesis by simp
  next
    case Absent
    let ?d = "d\<lparr>draft := (draft d)\<lparr>reverseItemMap :=
                   set_property (reverseItemMap (draft d)) r (Set_add p [])\<rparr>,
               shared := (shared d)(r := False)\<rparr>"
    have "insertReverseRef ?d p refs = (None, d')"
      using Absent Cons.prems by simp
    from Cons.IH [OF this] show ?thesis
      by (auto simp: has_reverse_ref_ref_in ref_in_set_property_new [OF Absent])
  qed
qed

lemma insertReverseRef_items:
  "insertReverseRef d p refs = (t, d') \<Longrightarrow> items (draft d') = items (draft d)"
  using insertReverseRef_frame [of d p refs t d']
  by (metis SessionState.select_convs(1) SessionState.surjective SessionState.update_convs(2))

lemma is_child_items_eq: "items st' = items st \<Longrightarrow> is_child st' p c = is_child st p c"
  by (simp add: is_child_def)

lemma is_child_items_upd:
  "is_child (st\<lparr>items := set_property (items st) k it\<rparr>) p c =
     (if p = k then (case item_items it of None \<Rightarrow> False | Some ch \<Rightarrow> c \<in> set ch)
      else is_child st p c)"
  by (simp add: is_child_def set_property_def)

lemma has_reverse_ref_items_upd:
  "has_reverse_ref (st\<lparr>items := m\<rparr>) p c = has_reverse_ref st p c"
  by (simp add: has_reverse_ref_def)

lemma ITEM_forward_closed:
  assumes "forward_closed (draft d)" and "applyAction ls (ITEM item) d = (cs, None, d')"
  shows "forward_closed (draft d')"
proof (cases "item_items item")
  case None
  with assms(2) have "draft d' = (draft d)\<lparr>items := set_property (items (draft d)) (item_id item) item\<rparr>"
    by auto
  with assms(1) None show ?thesis
    by (simp add: forward_closed_def is_child_items_upd has_reverse_ref_items_upd)
next
  case (Some refs)
  let ?d1 = "d\<lparr>draft := (draft d)\<lparr>items := set_property (items (draft d)) (item_id item) item\<rparr>\<rparr>"
  from assms(2) Some have ins: "insertReverseRef ?d1 (item_id item) refs = (None, d')"
    by (auto simp: Let_def split: prod.splits)
  have ch: "is_child (draft d') p c = is_child (draft ?d1) p c" for p c
    using insertReverseRef_items [OF ins] by (rule is_child_items_eq)
  show ?thesis
    unfolding forward_closed_def ch insertReverseRef_has_ref [OF ins]
    using assms(1) Some
    by (simp add: forward_closed_def is_child_items_upd has_reverse_ref_items_upd)
qed

lemma ANSWER_forward_closed:
  assumes "forward_closed (draft d)" and "applyAction ls (ANSWER i v) d = (cs, None, d')"
  shows "forward_closed (draft d')"
proof (cases "get_property (items (draft d)) i")
  case (Own answer)
  with assms(2) have st': "draft d' = (draft d)\<lparr>items :=
      set_property (items (draft d)) i (answer\<lparr>item_value := v\<rparr>)\<rparr>"
    by (auto split: if_splits)
  from Own have a: "items (draft d) i = Some answer"
    by (auto simp: get_property_def split: option.splits if_splits)
  have "is_child (draft d') p c = is_child (draft d) p c" for p c
    using a by (simp add: st' is_child_items_upd) (simp add: is_child_def)
  with assms(1) show ?thesis
    by (simp add: forward_closed_def st' has_reverse_ref_items_upd)
next
  case Inherited
  with assms show ?thesis by simp
next
  case Absent
  with assms show ?thesis by simp
qed

lemma applyAction_forward_closed:
  assumes "\<not> is_REMOVE_ITEMS a" and "forward_closed (draft d)"
    and "applyAction ls a d = (cs, None, d')"
  shows "forward_closed (draft d')"
proof (cases a)
  case (ITEM item)
  with assms show ?thesis
    by (simp only: ITEM_forward_closed [of d ls item cs d'])
next
  case (ANSWER i v)
  with assms show ?thesis
    by (simp only: ANSWER_forward_closed [of d ls i v cs d'])
qed (use assms in \<open>auto simp: forward_closed_def is_child_def has_reverse_ref_def\<close>)

lemma reduce_forward_closed:
  "list_all (\<lambda>a. \<not> is_REMOVE_ITEMS a) as \<Longrightarrow> forward_closed (draft d) \<Longrightarrow>
   reduce ls as d = (cs, None, d') \<Longrightarrow> forward_closed (draft d')"
proof (induction as arbitrary: d cs)
  case Nil
  then show ?case by simp
next
  case (Cons a as)
  obtain cs1 t1 d1 where r: "applyAction ls a d = (cs1, t1, d1)"
    by (cases "applyAction ls a d")
  with Cons.prems(3) have t1: "t1 = None"
    by (cases t1) auto
  have fc: "forward_closed (draft d1)"
    using applyAction_forward_closed [of a d ls cs1 d1] Cons.prems r t1 by simp
  obtain cs2 where "reduce ls as d1 = (cs2, None, d')"
    using Cons.prems(3) r t1 by (auto split: prod.splits)
  with Cons.IH [of d1 cs2] fc Cons.prems(1) show ?case by simp
qed

lemma removeItem_base_sets: "removeItem i d = (t, d') \<Longrightarrow> base_sets d' = base_sets d"
  by (auto simp: removeItem_def Let_def split: slot.splits)

lemma removeItems_base_sets: "removeItems ids d = (t, d') \<Longrightarrow> base_sets d' = base_sets d"
proof (induction ids arbitrary: d)
  case Nil
  then show ?case by simp
next
  case (Cons i ids)
  obtain t1 d1 where r: "removeItem i d = (t1, d1)" by (cases "removeItem i d")
  with Cons show ?case
    by (cases t1) (auto dest: removeItem_base_sets)
qed

lemma applyAction_base_sets:
  "applyAction ls a d = (cs, t, d') \<Longrightarrow> ref_in (base_sets d) p c \<Longrightarrow> ref_in (base_sets d') p c"
proof (cases a)
  case (ITEM item)
  assume ap: "applyAction ls a d = (cs, t, d')" and r: "ref_in (base_sets d) p c"
  show ?thesis
  proof (cases "item_items item")
    case None
    with ITEM ap r show ?thesis by auto
  next
    case (Some refs)
    let ?d1 = "d\<lparr>draft := (draft d)\<lparr>items := set_property (items (draft d)) (item_id item) item\<rparr>\<rparr>"
    from ap ITEM Some have "insertReverseRef ?d1 (item_id item) refs = (t, d')"
      by (auto simp: Let_def split: prod.splits)
    from insertReverseRef_base_sets [OF this] r show ?thesis by simp
  qed
next
  case (REMOVE_ITEMS ids)
  assume ap: "applyAction ls a d = (cs, t, d')" and r: "ref_in (base_sets d) p c"
  from ap REMOVE_ITEMS have "removeItems ids d = (t, d')"
    by (auto split: prod.splits)
  from removeItems_base_sets [OF this] r show ?thesis by simp
qed (auto split: slot.splits if_splits)

lemma reduce_base_sets:
  "reduce ls as d = (cs, t, d') \<Longrightarrow> ref_in (base_sets d) p c \<Longrightarrow> ref_in (base_sets d') p c"
proof (induction as arbitrary: d cs)
  case Nil
  then show ?case by simp
next
  case (Cons a as)
  obtain cs1 t1 d1 where r: "applyAction ls a d = (cs1, t1, d1)"
    by (cases "applyAction ls a d")
  have b: "ref_in (base_sets d1) p c"
    using applyAction_base_sets [OF r Cons.prems(2)] .
  show ?case
  proof (cases t1)
    case None
    with Cons.prems(1) r obtain cs2 where "reduce ls as d1 = (cs2, t, d')"
      by (auto split: prod.splits)
    from Cons.IH [OF this b] show ?thesis .
  next
    case (Some e)
    with Cons.prems(1) r b show ?thesis by simp
  qed
qed

lemma applyActions_forward_closed:
  assumes "list_all (\<lambda>a. \<not> is_REMOVE_ITEMS a) as" and "forward_closed (state s)"
  shows "forward_closed (state (after (applyActions as r s)))"
proof -
  define d1 where "d1 = (case r of None \<Rightarrow> begin_draft (state s)
     | Some r \<Rightarrow> if r \<noteq> 0 then (begin_draft (state s))\<lparr>draft := (draft (begin_draft (state s)))\<lparr>rev_no := r\<rparr>\<rparr>
                 else begin_draft (state s))"
  have fc: "forward_closed (draft d1)"
    using assms(2)
    by (auto simp: d1_def begin_draft_def forward_closed_def is_child_def has_reverse_ref_def
             split: option.splits)
  have bs: "base_sets d1 = reverseItemMap (state s)"
    by (simp add: d1_def begin_draft_def split: option.splits)
  obtain cs t d where red: "reduce (error_listeners s) as d1 = (cs, t, d)"
    by (cases "reduce (error_listeners s) as d1")
  show ?thesis
  proof (cases t)
    case None
    with red have "after (applyActions as r s) = s\<lparr>state := draft d\<rparr>"
      by (simp add: applyActions_def Let_def d1_def)
    moreover have "forward_closed (draft d)"
      using reduce_forward_closed [OF assms(1) fc] red None by simp
    ultimately show ?thesis by simp
  next
    case (Some e)
    with red have st: "state (after (applyActions as r s)) = (state s)\<lparr>reverseItemMap := base_sets d\<rparr>"
      by (simp add: applyActions_def Let_def d1_def)
    have mono: "has_reverse_ref (state s) p c \<Longrightarrow> ref_in (base_sets d) p c" for p c
      using reduce_base_sets [OF red, of p c] by (simp add: bs has_reverse_ref_ref_in)
    show ?thesis
      unfolding st forward_closed_def
      using assms(2) mono
      by (auto simp: forward_closed_def is_child_def has_reverse_ref_ref_in)
  qed
qed

lemma apply_batches_forward_closed:
  "list_all (\<lambda>b. list_all (\<lambda>a. \<not> is_REMOVE_ITEMS a) (fst b)) bs \<Longrightarrow> forward_closed (state s)
   \<Longrightarrow> forward_closed (state (apply_batches bs s))"
proof (induction bs arbitrary: s)
  case Nil
  then show ?case by (simp add: apply_batches_def)
next
  case (Cons b bs)
  have "forward_closed (state (after (applyActions (fst b) (snd b) s)))"
    using Cons.prems by (simp add: applyActions_forward_closed)
  with Cons show ?case by (simp add: apply_batches_def)
qed

lemma forward_closed_newSession: "forward_closed (state (newSession i))"
  by (simp add: forward_closed_def is_child_def newSession_def emptyState_def)

text \<open>
  C2, as the code has it. In every snapshot reached from the empty snapshot by batches
  that hold no REMOVE_ITEMS action, whatever their revision arguments: if
  \<open>items[parentId]\<close> has a children sequence that contains \<open>childId\<close>, then
  \<open>reverseItemMap[childId]\<close> contains \<open>parentId\<close>. The converse is not kept: ITEM
  only adds reverse references.
\<close>

theorem children_have_reverse_refs:
  "list_all (\<lambda>b. list_all (\<lambda>a. \<not> is_REMOVE_ITEMS a) (fst b)) bs \<Longrightarrow>
   is_child (state (apply_batches bs (newSession i))) p c \<Longrightarrow>
   has_reverse_ref (state (apply_batches bs (newSession i))) p c"
  using apply_batches_forward_closed [OF _ forward_closed_newSession, of bs i]
  by (simp add: forward_closed_def)

theorem children_have_reverse_refs_witness:
  "list_all (\<lambda>b. list_all (\<lambda>a. \<not> is_REMOVE_ITEMS a) (fst b))
     [([ITEM q1, ITEM a1], None), ([ANSWER ''a1'' (Some ''hello'')], Some 1)] \<and>
   is_child (state (apply_batches [([ITEM q1, ITEM a1], None), ([ANSWER ''a1'' (Some ''hello'')], Some 1)]
      session0)) ''q1'' ''a1'' \<and>
   has_reverse_ref (state (apply_batches [([ITEM q1, ITEM a1], None), ([ANSWER ''a1'' (Some ''hello'')], Some 1)]
      session0)) ''q1'' ''a1''"
  using children_have_reverse_refs
     [where bs = "[([ITEM q1, ITEM a1], None), ([ANSWER ''a1'' (Some ''hello'')], Some 1)]"
        and i = "''s''" and p = "''q1''" and c = "''a1''"]
  by (simp add: eval_defs apply_batches_def is_child_def)

text \<open>
  A reverse reference outlives the membership it came from when a container is upserted
  with fewer children; and after REMOVE_ITEMS of the example, q1 still lists a1 while
  the index has no entry for a1.
\<close>

theorem reverse_index_counterexample:
  "has_reverse_ref (state (apply_batches [([ITEM q1], None), ([ITEM (q1\<lparr>item_items := Some []\<rparr>)], None)]
      session0)) ''q1'' ''a1'' \<and>
   \<not> is_child (state (apply_batches [([ITEM q1], None), ([ITEM (q1\<lparr>item_items := Some []\<rparr>)], None)]
      session0)) ''q1'' ''a1'' \<and>
   is_child (state (apply_batches [([ITEM q1], None), ([ITEM a1], None), ([REMOVE_ITEMS [''a1'']], None)]
      session0)) ''q1'' ''a1'' \<and>
   \<not> has_reverse_ref (state (apply_batches [([ITEM q1], None), ([ITEM a1], None), ([REMOVE_ITEMS [''a1'']], None)]
      session0)) ''q1'' ''a1''"
  by (simp add: eval_defs apply_batches_def is_child_def has_reverse_ref_def)

section \<open>Queueing an action\<close>

text \<open>
  C10. For every action, \<open>queueAction\<close> arms a timer due in 500 ms, under a new handle
  that it keeps in \<open>syncTimer\<close>, appends the action to the queue, and only then
  applies the action: it throws what \<open>applyActions\<close> throws for that action on the
  session, makes the same calls and leaves the same state, and whether or not it throws,
  the action is the last of the queue and the flush of the resulting session hands the
  old queue followed by the action to the transport. \<open>setAnswer\<close>, \<open>complete\<close>,
  \<open>next\<close> and \<open>previous\<close> are \<open>queueAction\<close> with their action; the last three
  never throw. So a \<open>setAnswer\<close> that fails reaches its caller as an exception, with
  the state unchanged and the failed ANSWER still queued and sent at the next flush.
\<close>

theorem queueAction_arms_appends_then_applies:
  "syncActionQueue (fst (after (queueAction action (s, T)))) = syncActionQueue s @ [action] \<and>
   syncTimer (fst (after (queueAction action (s, T)))) = Some (Suc (last_handle T)) \<and>
   (Suc (last_handle T), clock T + 500)
     \<in> set (pending (snd (after (queueAction action (s, T))))) \<and>
   thrown (queueAction action (s, T)) = thrown (applyActions [action] None s) \<and>
   called (queueAction action (s, T)) = called (applyActions [action] None s) \<and>
   state (fst (after (queueAction action (s, T)))) = state (after (applyActions [action] None s)) \<and>
   flushes (snd (syncQueuedActions (after (queueAction action (s, T)))))
     = [syncActionQueue s @ [action]] \<and>
   setAnswer i v (s, T) = queueAction (ANSWER i v) (s, T) \<and>
   complete_call (s, T) = queueAction COMPLETE (s, T) \<and>
   next_call (s, T) = queueAction NEXT (s, T) \<and>
   previous_call (s, T) = queueAction PREVIOUS (s, T) \<and>
   thrown (complete_call (s, T)) = None \<and>
   thrown (next_call (s, T)) = None \<and>
   thrown (previous_call (s, T)) = None"
proof -
  obtain s' T' where w: "after (queueAction action (s, T)) = (s', T')"
    by (cases "after (queueAction action (s, T))")
  then have s': "s' = fst (after (queueAction action (s, T)))" by simp
  have q: "syncActionQueue s' = syncActionQueue s @ [action]"
    unfolding s' by (simp add: queueAction_unfold)
  have "flushes (snd (syncQueuedActions (s', T'))) = [syncActionQueue s @ [action]]"
    by (simp add: syncQueuedActions_flushes q)
  then show ?thesis
    unfolding w [symmetric]
    by (simp add: queueAction_unfold setAnswer_def complete_call_def next_call_def
          previous_call_def applyActions_def begin_draft_def)
qed

theorem queueAction_arms_appends_then_applies_witness:
  "thrown (setAnswer ''x'' None (session0, noTimers))
     = Some (DialobError (''No item found with id '' @ quoted ''x'')) \<and>
   state (fst (after (setAnswer ''x'' None (session0, noTimers)))) = state session0 \<and>
   syncActionQueue (fst (after (setAnswer ''x'' None (session0, noTimers)))) = [ANSWER ''x'' None] \<and>
   syncTimer (fst (after (setAnswer ''x'' None (session0, noTimers)))) = Some 1 \<and>
   flushes (snd (syncQueuedActions (after (setAnswer ''x'' None (session0, noTimers)))))
     = [[ANSWER ''x'' None]] \<and>
   syncActionQueue (fst (after (complete_call (session0, noTimers)))) = [COMPLETE] \<and>
   complete (state (fst (after (complete_call (session0, noTimers)))))"
  using queueAction_arms_appends_then_applies
          [where s = session0 and T = noTimers and action = "ANSWER ''x'' None"
             and i = "''x''" and v = None]
        queueAction_arms_appends_then_applies
          [where s = session0 and T = noTimers and action = COMPLETE]
  by (simp add: eval_defs noTimers_def)

section \<open>The timer and the queue\<close>

lemma enqueue_facts:
  "syncTimer (session (enqueue a w)) = Some (Suc (last_handle (timers w)))"
  "syncActionQueue (session (enqueue a w)) = syncActionQueue (session w) @ [a]"
  "flushes (calls (enqueue a w)) = flushes (calls w)"
  "clock (timers (enqueue a w)) = clock (timers w)"
  "pending (timers (enqueue a w)) =
     cleared w @ [(Suc (last_handle (timers w)), clock (timers w) + 500)]"
proof -
  define s2 where "s2 = (session w)\<lparr>syncTimer := Some (Suc (last_handle (timers w))),
     syncActionQueue := syncActionQueue (session w) @ [a]\<rparr>"
  obtain s3 cs t where r: "applyActions [a] None s2 = (s3, cs, t)"
    by (cases "applyActions [a] None s2")
  have s3: "s3 = s2\<lparr>state := state s3\<rparr>"
    using applyActions_frame [of "[a]" None s2] r by simp
  have cs: "flushes cs = []"
    using flushes_applyActions [of "[a]" None s2] r by simp
  have q: "queueAction a (session w, timers w) =
     ((s3, (timers w)\<lparr>last_handle := Suc (last_handle (timers w)),
            pending := cleared w @ [(Suc (last_handle (timers w)), clock (timers w) + 500)]\<rparr>), cs, t)"
    using r
    by (simp add: queueAction_def Let_def setTimeout_def clearTimeout_def cleared_def s2_def
          split: option.splits)
  have f: "syncTimer s3 = Some (Suc (last_handle (timers w)))"
       "syncActionQueue s3 = syncActionQueue (session w) @ [a]"
    by (subst s3, simp add: s2_def)+
  show "syncTimer (session (enqueue a w)) = Some (Suc (last_handle (timers w)))"
    "syncActionQueue (session (enqueue a w)) = syncActionQueue (session w) @ [a]"
    "flushes (calls (enqueue a w)) = flushes (calls w)"
    "clock (timers (enqueue a w)) = clock (timers w)"
    "pending (timers (enqueue a w)) =
       cleared w @ [(Suc (last_handle (timers w)), clock (timers w) + 500)]"
    by (simp_all add: enqueue_def perform_def q f cs flushes_append)
qed

lemma debouncing_pending:
  "debouncing w q \<Longrightarrow>
   \<exists>h d. pending (timers w) = [(h, d)] \<and> syncTimer (session w) = Some h \<and> h \<noteq> 0"
  by (cases "pending (timers w)") (auto simp: debouncing_def)

lemma fire_facts:
  assumes "debouncing w q" and "pending (timers w) = [(h, d)]"
  shows "quiet (fire h w)" and "flushes (calls (fire h w)) = flushes (calls w) @ [q]"
    and "clock (timers (fire h w)) = clock (timers w)"
proof -
  from assms have st: "syncTimer (session w) = Some h" "h \<noteq> 0"
      "pending (timers w) = [(h, d)]" "syncActionQueue (session w) = q"
    by (auto simp: debouncing_def)
  show "quiet (fire h w)" and "flushes (calls (fire h w)) = flushes (calls w) @ [q]"
    and "clock (timers (fire h w)) = clock (timers w)"
    using st
    by (simp_all add: fire_def syncQueuedActions_def clearTimeout_def Let_def quiet_def
          flushes_append flushes_sync_request)
qed

lemma shifted_simps:
  "session (shifted dt w) = session w" "calls (shifted dt w) = calls w"
  "pending (timers (shifted dt w)) = pending (timers w)"
  "clock (timers (shifted dt w)) = clock (timers w) + dt"
  "last_handle (timers (shifted dt w)) = last_handle (timers w)"
  by (simp_all add: shifted_def)

lemma quiet_shifted: "quiet (shifted dt w) = quiet w"
  by (simp add: quiet_def shifted_simps)

lemma debouncing_shifted: "debouncing (shifted dt w) q = debouncing w q"
  by (simp add: debouncing_def shifted_simps)

lemma elapse_quiet: "quiet w \<Longrightarrow> elapse dt w = shifted dt w"
  by (simp add: elapse_def Let_def quiet_def shifted_def)

lemma elapse_one_timer:
  "pending (timers w) = [(h, d)] \<Longrightarrow>
   elapse dt w = (if d \<le> clock (timers w) + dt then fire h (shifted dt w) else shifted dt w)"
  by (simp add: elapse_def Let_def shifted_def)

lemma enqueue_debouncing:
  assumes "quiet w \<or> debouncing w q"
  shows "debouncing (enqueue a w) (syncActionQueue (session w) @ [a])"
    and "map snd (pending (timers (enqueue a w))) = [clock (timers w) + 500]"
proof -
  have "cleared w = []"
    using assms
  proof
    assume "quiet w"
    then show ?thesis by (simp add: quiet_def cleared_def)
  next
    assume "debouncing w q"
    then obtain h d where "pending (timers w) = [(h, d)]" "syncTimer (session w) = Some h" "h \<noteq> 0"
      using debouncing_pending by blast
    then show ?thesis by (simp add: cleared_def)
  qed
  then show "debouncing (enqueue a w) (syncActionQueue (session w) @ [a])"
    and "map snd (pending (timers (enqueue a w))) = [clock (timers w) + 500]"
    by (simp_all add: debouncing_def enqueue_facts)
qed














text \<open>The flush itself has no guard: whatever the queue holds, the sync listeners hear
  INPROGRESS and the queue goes to the transport.\<close>

lemma flush_has_no_guard:
  "snd (syncQueuedActions (s, T)) =
     map (\<lambda>l. SyncCall l INPROGRESS) (sync_listeners s) @
     [TransportUpdate (session_id s) (syncActionQueue s) (rev_no (state s))]"
  by (simp add: syncQueuedActions_def sync_request_def Let_def split: option.splits)

section \<open>Debounce\<close>

lemma enqueue_all_debouncing:
  "debouncing w q \<Longrightarrow> map snd (pending (timers w)) = [clock (timers w) + 500] \<Longrightarrow>
   list_all (\<lambda>ev. fst ev < 500) evs \<Longrightarrow>
   debouncing (enqueue_all evs w) (q @ map snd evs) \<and>
   map snd (pending (timers (enqueue_all evs w))) = [clock (timers (enqueue_all evs w)) + 500] \<and>
   flushes (calls (enqueue_all evs w)) = flushes (calls w)"
proof (induction evs arbitrary: w q)
  case Nil
  then show ?case by simp
next
  case (Cons ev evs)
  obtain g a where ev: "ev = (g, a)" by (cases ev)
  from Cons.prems(1) obtain h d where p: "pending (timers w) = [(h, d)]"
    using debouncing_pending by blast
  with Cons.prems(2) have d: "d = clock (timers w) + 500" by simp
  from Cons.prems(3) ev have g: "g < 500" by simp
  have el: "elapse g w = shifted g w"
    using g d by (simp add: elapse_one_timer [OF p])
  have db: "debouncing (shifted g w) q"
    using Cons.prems(1) by (simp add: debouncing_shifted)
  let ?w = "enqueue a (shifted g w)"
  have 1: "debouncing ?w (q @ [a])"
    using enqueue_debouncing(1) [of "shifted g w" q a] db
    by (simp add: debouncing_def)
  have 2: "map snd (pending (timers ?w)) = [clock (timers ?w) + 500]"
    using enqueue_debouncing(2) [of "shifted g w" q a] db
    by (simp add: enqueue_facts)
  have 3: "flushes (calls ?w) = flushes (calls w)"
    by (simp add: enqueue_facts shifted_simps)
  from Cons.prems(3) have "list_all (\<lambda>ev. fst ev < 500) evs" by simp
  from Cons.IH [OF 1 2 this] 3 show ?case
    by (simp add: ev el)
qed

text \<open>
  C7. From a quiet world, take any enqueue calls, the first after any delay and each
  later one less than 500 ms after the call before it. While the calls come nothing is
  flushed; after the last call exactly one timer is pending, due 500 ms after that call,
  under the handle kept in \<open>syncTimer\<close>, and the queue holds all the actions in order.
  Once 500 ms or more have passed after the last call, exactly one batch has been handed
  to \<open>transport.update\<close>, it is the list of all the enqueued actions, and the world is
  quiet again.
\<close>

theorem debounce_single_flush:
  assumes "quiet w" and "list_all (\<lambda>ev. fst ev < 500) evs" and "500 \<le> dt"
  shows "flushes (calls (enqueue_all ((g, a) # evs) w)) = flushes (calls w) \<and>
    debouncing (enqueue_all ((g, a) # evs) w) (a # map snd evs) \<and>
    map snd (pending (timers (enqueue_all ((g, a) # evs) w)))
      = [clock (timers (enqueue_all ((g, a) # evs) w)) + 500] \<and>
    flushes (calls (elapse dt (enqueue_all ((g, a) # evs) w)))
      = flushes (calls w) @ [a # map snd evs] \<and>
    quiet (elapse dt (enqueue_all ((g, a) # evs) w))"
proof -
  let ?w1 = "enqueue a (shifted g w)"
  let ?w2 = "enqueue_all evs ?w1"
  have q: "quiet (shifted g w)"
    using assms(1) by (simp add: quiet_shifted)
  then have q0: "syncActionQueue (session (shifted g w)) = []"
    by (simp add: quiet_def)
  have 1: "debouncing ?w1 [a]"
    using enqueue_debouncing(1) [of "shifted g w" "[]" a] q q0 by simp
  have 2: "map snd (pending (timers ?w1)) = [clock (timers ?w1) + 500]"
    using enqueue_debouncing(2) [of "shifted g w" "[]" a] q by (simp add: enqueue_facts)
  have 3: "flushes (calls ?w1) = flushes (calls w)"
    by (simp add: enqueue_facts shifted_simps)
  have all: "enqueue_all ((g, a) # evs) w = ?w2"
    using assms(1) by (simp add: elapse_quiet)
  from enqueue_all_debouncing [OF 1 2 assms(2)] 3
  have db: "debouncing ?w2 (a # map snd evs)"
    and due: "map snd (pending (timers ?w2)) = [clock (timers ?w2) + 500]"
    and fl: "flushes (calls ?w2) = flushes (calls w)"
    by simp_all
  from db obtain h d where p: "pending (timers ?w2) = [(h, d)]"
    using debouncing_pending by blast
  with due have d: "d = clock (timers ?w2) + 500" by simp
  have ps: "pending (timers (shifted dt ?w2)) = [(h, d)]"
    by (simp add: shifted_simps p)
  have dbs: "debouncing (shifted dt ?w2) (a # map snd evs)"
    using db by (simp add: debouncing_shifted)
  have el: "elapse dt ?w2 = fire h (shifted dt ?w2)"
    using d assms(3) by (simp add: elapse_one_timer [OF p])
  show ?thesis
    using fire_facts(1,2) [OF dbs ps] db due fl
    by (simp add: elapse_quiet [OF assms(1)] el shifted_simps)
qed

theorem debounce_single_flush_witness:
  "quiet world0 \<and>
   list_all (\<lambda>ev. fst ev < 500)
     [(100::nat, NEXT), (100, ANSWER ''x'' None :: (string option, unit, unit) Action)] \<and>
   flushes (calls (enqueue_all [(0, COMPLETE), (100, NEXT), (100, ANSWER ''x'' None)] world0)) = [] \<and>
   flushes (calls (elapse 500
      (enqueue_all [(0, COMPLETE), (100, NEXT), (100, ANSWER ''x'' None)] world0)))
     = [[COMPLETE, NEXT, ANSWER ''x'' None]]"
proof -
  have q: "quiet world0"
    by (simp add: quiet_def world0_def newWorld_def newSession_def noTimers_def)
  have g: "list_all (\<lambda>ev. fst ev < 500)
              [(100::nat, NEXT), (100, ANSWER ''x'' None :: (string option, unit, unit) Action)]"
    by simp
  have c: "flushes (calls world0) = []"
    by (simp add: world0_def newWorld_def)
  show ?thesis
    using debounce_single_flush [OF q g order_refl, of 0 COMPLETE] q c
    by simp
qed

end
